theory Spec2Isabelle
  imports Main
begin

section \<open>Data model (lib/api.ts)\<close>

text \<open>
  JavaScript numbers that carry identifiers are modelled as \<open>int\<close>, strings as
  \<open>string\<close>. A JavaScript value is falsy when it is \<open>null\<close>/\<open>undefined\<close>, the number
  \<open>0\<close> or the empty string; the two tests below are the ones the source applies to an
  optional number (\<open>user?.user_id\<close>, \<open>conversationId\<close>) and to an optional string
  (\<open>currentThreadId\<close>).
\<close>

record conversation =
  conversation_id :: int
  user_id :: int
  title :: string
  thread_id :: string
  created_at :: string
  updated_at :: string
  is_active :: bool

datatype role = User | Assistant | System | Tool

record message_content =
  content_text :: string
  metadata :: "(string \<times> string) list option"

record message =
  message_id :: int
  m_conversation_id :: int
  m_role :: role
  m_content :: message_content
  m_created_at :: string

record update_request =
  upd_title :: "string option"
  upd_is_active :: "bool option"

record message_payload =
  p_conversation_id :: int
  p_role :: role
  p_content :: message_content

fun truthy_num :: "int option \<Rightarrow> bool" where
  "truthy_num None = False"
| "truthy_num (Some n) = (n \<noteq> 0)"

fun truthy_str :: "string option \<Rightarrow> bool" where
  "truthy_str None = False"
| "truthy_str (Some s) = (s \<noteq> [])"

section \<open>The remote store as seen through fetch\<close>

text \<open>
  Each request the client sends is one value of \<open>request\<close>: the HTTP method, the path
  and the query or body the source builds, kept structured instead of as a URL string.
\<close>

datatype request =
    PostConversations int string
  | GetUserConversations int bool
  | GetConversation int
  | GetConversationByThread string
  | PatchConversation int update_request
  | DeleteConversationReq int bool
  | PostMessages message_payload
  | GetMessagesReq int int int
  | GetMessageCount int
  | DeleteMessageReq int
  | DeleteAllMessagesReq int

text \<open>
  A response carries \<open>ok\<close> and \<open>statusText\<close>. The source returns \<open>response.json()\<close>
  under a TypeScript type with no run-time validation, so the parsed body is represented
  by its reading at each of the types the client uses.
\<close>

record response =
  ok :: bool
  statusText :: string
  conversationJson :: conversation
  conversationsJson :: "conversation list"
  messageJson :: message
  messagesJson :: "message list"
  message_countJson :: int

datatype error = Error string

text \<open>Lines of \<open>console.warn\<close> and \<open>console.error\<close>, by their fixed text without the
  leading pictograph; \<open>console.log\<close> lines are not recorded.\<close>

datatype console_entry = ConsoleWarn string | ConsoleError string

text \<open>
  The world outside the component: the remote service answers the \<open>n\<close>-th request of
  the session by \<open>respond n\<close>, the wall clock reads \<open>clock n\<close> after \<open>n\<close> requests; the
  requests sent and the console lines written are recorded in order.
\<close>

record world =
  respond :: "nat \<Rightarrow> request \<Rightarrow> response"
  clock :: "nat \<Rightarrow> string"
  requests :: "request list"
  console :: "console_entry list"

definition fetch :: "request \<Rightarrow> world \<Rightarrow> response \<times> world" where
  "fetch req w = (respond w (length (requests w)) req, w\<lparr>requests := requests w @ [req]\<rparr>)"

definition console_warn :: "string \<Rightarrow> world \<Rightarrow> world" where
  "console_warn line w = w\<lparr>console := console w @ [ConsoleWarn line]\<rparr>"

definition console_error :: "string \<Rightarrow> world \<Rightarrow> world" where
  "console_error line w = w\<lparr>console := console w @ [ConsoleError line]\<rparr>"

definition now :: "world \<Rightarrow> string" where
  "now w = clock w (length (requests w))"

section \<open>Conversation Store API Client (lib/api.ts)\<close>

text \<open>
  An optional argument of the source is an \<open>option\<close>: \<open>None\<close> is the argument left out,
  which selects the default written in the signature. A thrown \<open>Error\<close> is the \<open>Inl\<close>
  branch of the result.
\<close>

definition createConversation ::
  "int \<Rightarrow> string option \<Rightarrow> world \<Rightarrow> (error + conversation) \<times> world" where
  "createConversation userId title_arg w =
     (let ttl = (case title_arg of None \<Rightarrow> ''New Conversation'' | Some t \<Rightarrow> t);
          (response, w') = fetch (PostConversations userId ttl) w
      in if \<not> ok response
         then (Inl (Error (''Failed to create conversation: '' @ statusText response)), w')
         else (Inr (conversationJson response), w'))"

definition getUserConversations ::
  "int \<Rightarrow> bool option \<Rightarrow> world \<Rightarrow> (error + conversation list) \<times> world" where
  "getUserConversations userId includeInactive_arg w =
     (let includeInactive = (case includeInactive_arg of None \<Rightarrow> False | Some b \<Rightarrow> b);
          (response, w') = fetch (GetUserConversations userId includeInactive) w
      in if \<not> ok response
         then (Inl (Error (''Failed to fetch conversations: '' @ statusText response)), w')
         else (Inr (conversationsJson response), w'))"

definition getConversation :: "int \<Rightarrow> world \<Rightarrow> (error + conversation) \<times> world" where
  "getConversation conversationId w =
     (let (response, w') = fetch (GetConversation conversationId) w
      in if \<not> ok response
         then (Inl (Error (''Failed to fetch conversation: '' @ statusText response)), w')
         else (Inr (conversationJson response), w'))"

definition getConversationByThreadId ::
  "string \<Rightarrow> world \<Rightarrow> (error + conversation) \<times> world" where
  "getConversationByThreadId threadId w =
     (let (response, w') = fetch (GetConversationByThread threadId) w
      in if \<not> ok response
         then (Inl (Error (''Failed to fetch conversation: '' @ statusText response)), w')
         else (Inr (conversationJson response), w'))"

definition updateConversation ::
  "int \<Rightarrow> update_request \<Rightarrow> world \<Rightarrow> (error + conversation) \<times> world" where
  "updateConversation conversationId updates w =
     (let (response, w') = fetch (PatchConversation conversationId updates) w
      in if \<not> ok response
         then (Inl (Error (''Failed to update conversation: '' @ statusText response)), w')
         else (Inr (conversationJson response), w'))"

definition deleteConversationAPI ::
  "int \<Rightarrow> bool option \<Rightarrow> world \<Rightarrow> (error + unit) \<times> world" where
  "deleteConversationAPI conversationId softDelete_arg w =
     (let softDelete = (case softDelete_arg of None \<Rightarrow> True | Some b \<Rightarrow> b);
          (response, w') = fetch (DeleteConversationReq conversationId softDelete) w
      in if \<not> ok response
         then (Inl (Error (''Failed to delete conversation: '' @ statusText response)), w')
         else (Inr (), w'))"

definition createMessage :: "message_payload \<Rightarrow> world \<Rightarrow> (error + message) \<times> world" where
  "createMessage payload w =
     (let (response, w') = fetch (PostMessages payload) w
      in if \<not> ok response
         then (Inl (Error ''Failed to save message''), w')
         else (Inr (messageJson response), w'))"

definition getMessages ::
  "int \<Rightarrow> int option \<Rightarrow> int option \<Rightarrow> world \<Rightarrow> (error + message list) \<times> world" where
  "getMessages conversationId limit_arg offset_arg w =
     (let limit = (case limit_arg of None \<Rightarrow> 100 | Some l \<Rightarrow> l);
          offset = (case offset_arg of None \<Rightarrow> 0 | Some k \<Rightarrow> k);
          (response, w') = fetch (GetMessagesReq conversationId limit offset) w
      in if \<not> ok response
         then (Inl (Error (''Failed to fetch messages: '' @ statusText response)), w')
         else (Inr (messagesJson response), w'))"

definition getMessageCount :: "int \<Rightarrow> world \<Rightarrow> (error + int) \<times> world" where
  "getMessageCount conversationId w =
     (let (response, w') = fetch (GetMessageCount conversationId) w
      in if \<not> ok response
         then (Inl (Error (''Failed to fetch message count: '' @ statusText response)), w')
         else (Inr (message_countJson response), w'))"

definition deleteMessage :: "int \<Rightarrow> world \<Rightarrow> (error + unit) \<times> world" where
  "deleteMessage messageId w =
     (let (response, w') = fetch (DeleteMessageReq messageId) w
      in if \<not> ok response
         then (Inl (Error (''Failed to delete message: '' @ statusText response)), w')
         else (Inr (), w'))"

definition deleteAllMessages :: "int \<Rightarrow> world \<Rightarrow> (error + unit) \<times> world" where
  "deleteAllMessages conversationId w =
     (let (response, w') = fetch (DeleteAllMessagesReq conversationId) w
      in if \<not> ok response
         then (Inl (Error (''Failed to delete messages: '' @ statusText response)), w')
         else (Inr (), w'))"

section \<open>Conversation Session Manager (hooks/useConversations.ts)\<close>

text \<open>
  The six \<open>useState\<close> cells of the hook. A callback of the hook reads the cells it
  closes over as they were in the render that built it; those captured values are
  explicit arguments (\<open>convs\<close>, \<open>cur\<close>). Setters act on the live state \<open>s\<close>; a setter
  given a function (\<open>setConversations(prev => ...)\<close>) reads the live cell.
\<close>

record session =
  conversations :: "conversation list"
  currentConversation :: "conversation option"
  currentThreadId :: "string option"
  messages :: "message list"
  isLoading :: bool
  error :: "string option"

definition loadConversations ::
  "int \<Rightarrow> session \<Rightarrow> world \<Rightarrow> conversation list \<times> session \<times> world" where
  "loadConversations userId s w =
     (let s1 = s\<lparr>isLoading := True, error := None\<rparr>
      in case getUserConversations userId None w of
           (Inr convs, w') \<Rightarrow> (convs, s1\<lparr>conversations := convs, isLoading := False\<rparr>, w')
         | (Inl err, w') \<Rightarrow>
             ([], s1\<lparr>error := Some ''Failed to load conversations'', isLoading := False\<rparr>,
              console_error ''Failed to load conversations:'' w'))"

definition createNewConversation ::
  "int \<Rightarrow> string option \<Rightarrow> session \<Rightarrow> world \<Rightarrow> (error + conversation) \<times> session \<times> world" where
  "createNewConversation userId title_arg s w =
     (let ttl = (case title_arg of None \<Rightarrow> ''New Conversation'' | Some t \<Rightarrow> t);
          s1 = s\<lparr>isLoading := True, error := None\<rparr>
      in case createConversation userId (Some ttl) w of
           (Inr resp, w') \<Rightarrow> (Inr resp, s1\<lparr>isLoading := False\<rparr>, w')
         | (Inl err, w') \<Rightarrow>
             (Inl err, s1\<lparr>error := Some ''Failed to create conversation'', isLoading := False\<rparr>,
              console_error ''Failed to create conversation:'' w'))"

text \<open>
  \<open>selectConversation\<close> searches \<open>convs\<close>, the conversation list its closure captured.
  The early \<open>return\<close> of the not-found branch still runs the \<open>finally\<close> block.
\<close>

definition selectConversation ::
  "conversation list \<Rightarrow> string \<Rightarrow> session \<Rightarrow> world \<Rightarrow> session \<times> world" where
  "selectConversation convs threadId s w =
     (let s1 = s\<lparr>isLoading := True, error := None\<rparr>
      in case find (\<lambda>c. thread_id c = threadId) convs of
           None \<Rightarrow>
             (s1\<lparr>isLoading := False\<rparr>,
              console_warn ''Conversation not in local state, reloading...'' w)
         | Some conv \<Rightarrow>
             (let s2 = s1\<lparr>currentConversation := Some conv,
                           currentThreadId := Some (thread_id conv)\<rparr>
              in case getMessages (conversation_id conv) None None w of
                   (Inr msgs, w') \<Rightarrow> (s2\<lparr>messages := msgs, isLoading := False\<rparr>, w')
                 | (Inl err, w') \<Rightarrow>
                     (s2\<lparr>error := Some ''Failed to select conversation'', isLoading := False\<rparr>,
                      console_error ''Error selecting conversation:'' w')))"

text \<open>
  \<open>deleteConversation\<close> and \<open>updateConversationTitle\<close> compare the requested id with
  \<open>cur\<close>, the current conversation their closure captured.
\<close>

definition deleteConversation ::
  "conversation option \<Rightarrow> int \<Rightarrow> session \<Rightarrow> world \<Rightarrow> session \<times> world" where
  "deleteConversation cur conversationId s w =
     (let s1 = s\<lparr>error := None\<rparr>
      in case deleteConversationAPI conversationId (Some True) w of
           (Inr u, w') \<Rightarrow>
             (let s2 = s1\<lparr>conversations :=
                          filter (\<lambda>c. conversation_id c \<noteq> conversationId) (conversations s1)\<rparr>
              in if map_option conversation_id cur = Some conversationId
                 then (s2\<lparr>currentConversation := None, currentThreadId := None,
                          messages := []\<rparr>, w')
                 else (s2, w'))
         | (Inl err, w') \<Rightarrow>
             (s1\<lparr>error := Some ''Failed to delete conversation''\<rparr>,
              console_error ''Failed to delete conversation'' w'))"


definition refreshMessages ::
  "conversation option \<Rightarrow> session \<Rightarrow> world \<Rightarrow> session \<times> world" where
  "refreshMessages cur s w =
     (case cur of
        None \<Rightarrow> (s, w)
      | Some c \<Rightarrow>
          (case getMessages (conversation_id c) None None w of
             (Inr msgs, w') \<Rightarrow> (s\<lparr>messages := msgs\<rparr>, w')
           | (Inl err, w') \<Rightarrow>
               (s\<lparr>error := Some ''Failed to refresh messages''\<rparr>,
                console_error ''Failed to refresh messages'' w')))"

section \<open>Message Persistence Bridge (hooks/useMessagePersistence.ts)\<close>

text \<open>
  A message of the widget's stream has an \<open>id\<close>, a \<open>role\<close> and a \<open>content\<close> that the
  source reads untyped. A content that is not a string is used only through
  \<open>JSON.stringify\<close>, so it is represented by that serialisation. The source tests
  \<open>msg.id\<close> for truthiness: the empty string stands for a message without an id.
\<close>

datatype stream_content = StringContent string | OtherContent string

record stream_message =
  sm_id :: string
  sm_role :: string
  sm_content :: stream_content

text \<open>The two refs of the hook: the seen set and the snapshot flag.\<close>

record tracker =
  savedMessageIds :: "string set"
  isInitialLoad :: bool

text \<open>First effect: runs when \<open>conversationId\<close> changes.\<close>

definition useMessagePersistence_reset :: "tracker \<Rightarrow> tracker" where
  "useMessagePersistence_reset t = t\<lparr>savedMessageIds := {}, isInitialLoad := True\<rparr>"

definition content_of :: "stream_message \<Rightarrow> world \<Rightarrow> message_content" where
  "content_of m w =
     \<lparr>content_text = (case sm_content m of StringContent c \<Rightarrow> c | OtherContent j \<Rightarrow> j),
      metadata = Some [(''copilot_message_id'', sm_id m), (''timestamp'', now w)]\<rparr>"

definition role_of :: "stream_message \<Rightarrow> role" where
  "role_of m = (if sm_role m = ''assistant'' then Assistant else User)"

text \<open>
  The \<open>for\<close> loop of \<open>saveNewMessages\<close>, one stream message per step; each \<open>await\<close> of
  \<open>createMessage\<close> completes before the next message is looked at.
\<close>

fun saveNewMessages ::
  "int \<Rightarrow> stream_message list \<Rightarrow> tracker \<Rightarrow> world \<Rightarrow> tracker \<times> world" where
  "saveNewMessages conversationId [] t w = (t, w)"
| "saveNewMessages conversationId (m # ms) t w =
     (if sm_id m = [] \<or> sm_id m \<in> savedMessageIds t
      then saveNewMessages conversationId ms t w
      else if sm_role m = ''system''
      then saveNewMessages conversationId ms
             (t\<lparr>savedMessageIds := insert (sm_id m) (savedMessageIds t)\<rparr>) w
      else (case createMessage \<lparr>p_conversation_id = conversationId, p_role = role_of m,
                                p_content = content_of m w\<rparr> w of
              (Inr saved, w') \<Rightarrow>
                saveNewMessages conversationId ms
                  (t\<lparr>savedMessageIds := insert (sm_id m) (savedMessageIds t)\<rparr>) w'
            | (Inl err, w') \<Rightarrow>
                saveNewMessages conversationId ms t
                  (console_error ''Failed to save message:'' w')))"

text \<open>
  Second effect: one pass of the bridge over the stream as it is now. The effect starts
  \<open>saveNewMessages\<close> without awaiting it; a pass is taken to run to its end before
  the next one starts.
\<close>

definition useMessagePersistence_effect ::
  "bool \<Rightarrow> int option \<Rightarrow> stream_message list \<Rightarrow> tracker \<Rightarrow> world \<Rightarrow> tracker \<times> world" where
  "useMessagePersistence_effect enabled conversationId msgs t w =
     (if \<not> enabled \<or> \<not> truthy_num conversationId then (t, w)
      else if length msgs = 0 then (t, w)
      else if isInitialLoad t
      then (t\<lparr>savedMessageIds :=
                 fold (\<lambda>msg seen. if sm_id msg \<noteq> [] then insert (sm_id msg) seen else seen)
                   msgs (savedMessageIds t),
               isInitialLoad := False\<rparr>, w)
      else saveNewMessages (the conversationId) msgs t w)"

section \<open>Session Orchestrator (components/chat-interface.tsx)\<close>

text \<open>
  The component's own cells: the guard latch \<open>autoCreateRef\<close> (a ref, shared by every
  render) and the \<open>isSwitchingConversation\<close> flag. A handler built in a render reads
  \<open>user\<close> (the value of \<open>user?.user_id\<close>) and the session \<open>v\<close> of that render; the
  manager callbacks it calls were built in the same render, so they capture the cells
  of \<open>v\<close>. The fixed 100 ms pause after a selection changes no state and is left out.
  A handler is taken to run from its first line to its last with no other handler in
  between; the auto-create effect alone is split at its first \<open>await\<close>.
\<close>

record orchestrator =
  autoCreateRef :: bool
  isSwitchingConversation :: bool

definition handleNewConversation ::
  "int option \<Rightarrow> session \<Rightarrow> orchestrator \<Rightarrow> session \<Rightarrow> world
     \<Rightarrow> (error + conversation option) \<times> orchestrator \<times> session \<times> world" where
  "handleNewConversation user v orc s w =
     (if \<not> truthy_num user then (Inr None, orc, s, w)
      else
        (let orc1 = orc\<lparr>isSwitchingConversation := True\<rparr>
         in case createNewConversation (the user) (Some ''New Conversation'') s w of
              (Inl err, s1, w1) \<Rightarrow>
                (Inl err, orc1\<lparr>isSwitchingConversation := False\<rparr>, s1,
                 console_error ''Failed to create conversation:'' w1)
            | (Inr resp, s1, w1) \<Rightarrow>
                (let (convs, s2, w2) = loadConversations (the user) s1 w1;
                     (s3, w3) = (if thread_id resp \<noteq> []
                                 then selectConversation (conversations v) (thread_id resp) s2 w2
                                 else (s2, w2))
                 in (Inr (Some resp), orc1\<lparr>isSwitchingConversation := False\<rparr>, s3, w3))))"

definition handleSelectConversation ::
  "session \<Rightarrow> string \<Rightarrow> orchestrator \<Rightarrow> session \<Rightarrow> world
     \<Rightarrow> orchestrator \<times> session \<times> world" where
  "handleSelectConversation v threadId orc s w =
     (let orc1 = orc\<lparr>isSwitchingConversation := True\<rparr>;
          (s1, w1) = selectConversation (conversations v) threadId s w
      in (orc1\<lparr>isSwitchingConversation := False\<rparr>, s1, w1))"

definition handleDeleteConversation ::
  "int option \<Rightarrow> session \<Rightarrow> int \<Rightarrow> orchestrator \<Rightarrow> session \<Rightarrow> world
     \<Rightarrow> orchestrator \<times> session \<times> world" where
  "handleDeleteConversation user v conversationId orc s w =
     (let deletingCurrent =
            find (\<lambda>c. conversation_id c = conversationId
                       \<and> Some (thread_id c) = currentThreadId v) (conversations v);
          (s1, w1) = deleteConversation (currentConversation v) conversationId s w
      in case deletingCurrent of
           None \<Rightarrow> (orc, s1, w1)
         | Some d \<Rightarrow>
             (let remaining =
                    filter (\<lambda>c. conversation_id c \<noteq> conversationId) (conversations v)
              in case remaining of
                   r # rest \<Rightarrow> handleSelectConversation v (thread_id r) orc s1 w1
                 | [] \<Rightarrow>
                     (if truthy_num user
                      then (case handleNewConversation user v orc s1 w1 of
                              (Inl err, orc2, s2, w2) \<Rightarrow>
                                (orc2, s2, console_error ''Failed to delete conversation:'' w2)
                            | (Inr resp, orc2, s2, w2) \<Rightarrow> (orc2, s2, w2))
                      else (orc, s1, w1))))"

text \<open>
  The auto-create effect. \<open>autoCreate_enter\<close> is the function from its first line to
  the assignment \<open>autoCreateRef.current = true\<close>: it contains no \<open>await\<close>, so it runs
  without interruption, and it tells whether the guarded block is entered.
  \<open>autoCreate_flow\<close> is the \<open>try\<close>/\<open>catch\<close> that follows, and
  \<open>autoCreateConversation\<close> is the whole function.
\<close>

definition autoCreate_enter ::
  "int option \<Rightarrow> session \<Rightarrow> orchestrator \<Rightarrow> bool \<times> orchestrator" where
  "autoCreate_enter user v orc =
     (if \<not> truthy_num user then (False, orc)
      else if isLoading v then (False, orc)
      else if autoCreateRef orc then (False, orc)
      else if length (conversations v) = 0 \<and> \<not> truthy_str (currentThreadId v)
      then (True, orc\<lparr>autoCreateRef := True\<rparr>)
      else (False, orc))"

definition autoCreate_flow ::
  "int option \<Rightarrow> session \<Rightarrow> orchestrator \<Rightarrow> session \<Rightarrow> world
     \<Rightarrow> orchestrator \<times> session \<times> world" where
  "autoCreate_flow user v orc s w =
     (case handleNewConversation user v orc s w of
        (Inl err, orc1, s1, w1) \<Rightarrow>
          (orc1\<lparr>autoCreateRef := False\<rparr>, s1, console_error ''Auto-create failed:'' w1)
      | (Inr resp, orc1, s1, w1) \<Rightarrow>
          (let (convs, s2, w2) = loadConversations (the user) s1 w1
           in case resp of
                None \<Rightarrow> (orc1, s2, w2)
              | Some c \<Rightarrow>
                  (if thread_id c \<noteq> []
                   then (let (s3, w3) = selectConversation (conversations v) (thread_id c) s2 w2
                         in (orc1, s3, w3))
                   else (orc1, s2, w2))))"

definition autoCreateConversation ::
  "int option \<Rightarrow> session \<Rightarrow> orchestrator \<Rightarrow> session \<Rightarrow> world
     \<Rightarrow> orchestrator \<times> session \<times> world" where
  "autoCreateConversation user v orc s w =
     (case autoCreate_enter user v orc of
        (True, orc1) \<Rightarrow> autoCreate_flow user v orc1 s w
      | (False, orc1) \<Rightarrow> (orc1, s, w))"

text \<open>The number of create-conversation requests sent so far.\<close>

fun is_create :: "request \<Rightarrow> bool" where
  "is_create (PostConversations u t) = True"
| "is_create r = False"

definition created :: "world \<Rightarrow> nat" where
  "created w = length (filter is_create (requests w))"

text \<open>
  Two runs of the effect for the same user that overlap: the first run reaches its
  first \<open>await\<close> with the latch already written, the second run (built in a render
  with session \<open>v2\<close>) then executes as a whole, and the first run resumes after it.
\<close>

definition two_concurrent_triggers ::
  "int option \<Rightarrow> session \<Rightarrow> session \<Rightarrow> orchestrator \<Rightarrow> session \<Rightarrow> world
     \<Rightarrow> orchestrator \<times> session \<times> world" where
  "two_concurrent_triggers user v v2 orc s w =
     (case autoCreate_enter user v orc of
        (True, orc1) \<Rightarrow>
          (let (orc2, s2, w2) = autoCreateConversation user v2 orc1 s w
           in autoCreate_flow user v orc2 s2 w2)
      | (False, orc1) \<Rightarrow> autoCreateConversation user v2 orc1 s w)"

section \<open>Observations on a run\<close>

text \<open>
  The definitions of this section are not code of the program: they read off the
  recorded requests what a run did, so that the properties below can be stated.
\<close>

text \<open>The requests sent between an earlier world and a later one.\<close>

definition sent_between :: "world \<Rightarrow> world \<Rightarrow> request list" where
  "sent_between w w' = drop (length (requests w)) (requests w')"

text \<open>The create-message requests among a list of requests, in order.\<close>

fun persisted_payloads :: "request list \<Rightarrow> message_payload list" where
  "persisted_payloads [] = []"
| "persisted_payloads (PostMessages p # rs) = p # persisted_payloads rs"
| "persisted_payloads (r # rs) = persisted_payloads rs"

text \<open>The stream message id a persisted payload is tagged with.\<close>

definition copilot_message_id :: "message_payload \<Rightarrow> string" where
  "copilot_message_id p =
     (case metadata (p_content p) of
        None \<Rightarrow> []
      | Some kvs \<Rightarrow> (case map_of kvs ''copilot_message_id'' of None \<Rightarrow> [] | Some i \<Rightarrow> i))"

text \<open>A payload without its capture timestamp, and the same for the stream message
  it is built from.\<close>

definition payload_core :: "message_payload \<Rightarrow> int \<times> role \<times> string \<times> string" where
  "payload_core p =
     (p_conversation_id p, p_role p, content_text (p_content p), copilot_message_id p)"

definition message_core :: "int \<Rightarrow> stream_message \<Rightarrow> int \<times> role \<times> string \<times> string" where
  "message_core conversationId m =
     (conversationId, role_of m,
      (case sm_content m of StringContent c \<Rightarrow> c | OtherContent j \<Rightarrow> j), sm_id m)"

text \<open>The stream messages a pass with tracker \<open>t\<close> does not skip: they have an id, the
  id is not in the seen set, and the role is not \<open>system\<close>.\<close>

definition eligible :: "tracker \<Rightarrow> stream_message \<Rightarrow> bool" where
  "eligible t m = (sm_id m \<noteq> [] \<and> sm_id m \<notin> savedMessageIds t \<and> sm_role m \<noteq> ''system'')"

text \<open>For each create-message request of a list sent from request number \<open>n\<close> on: the
  stream message id it carries, and whether the store reported success.\<close>

fun persist_results_from ::
  "(nat \<Rightarrow> request \<Rightarrow> response) \<Rightarrow> nat \<Rightarrow> request list \<Rightarrow> (string \<times> bool) list" where
  "persist_results_from rsp n [] = []"
| "persist_results_from rsp n (PostMessages p # rs) =
     (copilot_message_id p, ok (rsp n (PostMessages p))) # persist_results_from rsp (Suc n) rs"
| "persist_results_from rsp n (r # rs) = persist_results_from rsp (Suc n) rs"

definition persist_results :: "world \<Rightarrow> world \<Rightarrow> (string \<times> bool) list" where
  "persist_results w w' =
     persist_results_from (respond w) (length (requests w)) (sent_between w w')"

section \<open>Example data\<close>

definition ex_conv_a :: conversation where
  "ex_conv_a = \<lparr>conversation_id = 1, user_id = 42, title = ''First'', thread_id = ''thread-a'',
     created_at = ''2025-01-01'', updated_at = ''2025-01-01'', is_active = True\<rparr>"

definition ex_conv_b :: conversation where
  "ex_conv_b = \<lparr>conversation_id = 2, user_id = 42, title = ''Second'', thread_id = ''thread-b'',
     created_at = ''2025-01-02'', updated_at = ''2025-01-02'', is_active = True\<rparr>"

definition ex_message :: "int \<Rightarrow> message" where
  "ex_message k = \<lparr>message_id = k, m_conversation_id = 1, m_role = User,
     m_content = \<lparr>content_text = ''hello'', metadata = None\<rparr>, m_created_at = ''2025-01-01''\<rparr>"

definition ex_response :: response where
  "ex_response = \<lparr>ok = True, statusText = ''OK'', conversationJson = ex_conv_a,
     conversationsJson = [ex_conv_a, ex_conv_b], messageJson = ex_message 1,
     messagesJson = [ex_message 1], message_countJson = 1\<rparr>"

definition ex_failure :: response where
  "ex_failure = ex_response\<lparr>ok := False, statusText := ''Internal Server Error''\<rparr>"

definition ex_world :: world where
  "ex_world = \<lparr>respond = (\<lambda>n req. ex_response), clock = (\<lambda>n. ''2025-01-01T00:00:00.000Z''),
     requests = [], console = []\<rparr>"

definition ex_world_down :: world where
  "ex_world_down = ex_world\<lparr>respond := (\<lambda>n req. ex_failure)\<rparr>"

definition ex_session :: session where
  "ex_session = \<lparr>conversations = [ex_conv_a, ex_conv_b], currentConversation = Some ex_conv_a,
     currentThreadId = Some ''thread-a'', messages = [], isLoading = False, error = None\<rparr>"

definition ex_session_error :: session where
  "ex_session_error = ex_session\<lparr>error := Some ''Failed to load conversations''\<rparr>"


definition ex_world_flaky :: world where
  "ex_world_flaky = ex_world\<lparr>respond := (\<lambda>n req. if n = 0 then ex_failure else ex_response)\<rparr>"

definition ex_stored :: "int \<Rightarrow> message list" where
  "ex_stored cid = map ex_message [1..101]"

definition ex_store_world :: world where
  "ex_store_world = ex_world\<lparr>respond := (\<lambda>n req.
      case req of
        GetMessagesReq cid lim off \<Rightarrow>
          ex_response\<lparr>messagesJson := take (nat lim) (drop (nat off) (ex_stored cid))\<rparr>
      | _ \<Rightarrow> ex_response)\<rparr>"

definition ex_session_empty :: session where
  "ex_session_empty = \<lparr>conversations = [], currentConversation = None, currentThreadId = None,
     messages = [], isLoading = False, error = None\<rparr>"

definition ex_session_single :: session where
  "ex_session_single = ex_session\<lparr>conversations := [ex_conv_a]\<rparr>"

definition ex_orchestrator :: orchestrator where
  "ex_orchestrator = \<lparr>autoCreateRef = False, isSwitchingConversation = False\<rparr>"

definition ex_snapshot :: "stream_message list" where
  "ex_snapshot =
     [\<lparr>sm_id = ''h1'', sm_role = ''user'', sm_content = StringContent ''earlier question''\<rparr>,
      \<lparr>sm_id = ''h2'', sm_role = ''assistant'', sm_content = StringContent ''earlier answer''\<rparr>,
      \<lparr>sm_id = ''h3'', sm_role = ''user'', sm_content = StringContent ''thanks''\<rparr>]"

definition ex_appended :: "stream_message list" where
  "ex_appended =
     [\<lparr>sm_id = ''n1'', sm_role = ''user'', sm_content = StringContent ''question''\<rparr>,
      \<lparr>sm_id = ''n2'', sm_role = ''assistant'', sm_content = StringContent ''answer''\<rparr>]"

definition ex_stream :: "stream_message list" where
  "ex_stream =
     [\<lparr>sm_id = ''m1'', sm_role = ''user'', sm_content = StringContent ''question''\<rparr>,
      \<lparr>sm_id = ''m2'', sm_role = ''system'', sm_content = StringContent ''context''\<rparr>,
      \<lparr>sm_id = ''m3'', sm_role = ''assistant'', sm_content = OtherContent ''{}''\<rparr>]"



definition ex_tracker_fresh :: tracker where
  "ex_tracker_fresh = \<lparr>savedMessageIds = {}, isInitialLoad = True\<rparr>"

definition ex_tracker_live :: tracker where
  "ex_tracker_live = \<lparr>savedMessageIds = {}, isInitialLoad = False\<rparr>"

lemmas ex_defs = ex_conv_a_def ex_conv_b_def ex_message_def ex_response_def ex_failure_def
  ex_world_def ex_world_down_def ex_session_def ex_session_error_def

section \<open>Conversation Store API Client: failures\<close>

text \<open>
  Every function of the client sends exactly one request, whatever the answer: there
  is no retry at this layer.
\<close>

lemma api_client_sends_one_request:
  "requests (snd (createConversation u ttl w)) =
     requests w @ [PostConversations u (case ttl of None \<Rightarrow> ''New Conversation'' | Some t \<Rightarrow> t)]"
  "requests (snd (getUserConversations u inc w)) =
     requests w @ [GetUserConversations u (case inc of None \<Rightarrow> False | Some b \<Rightarrow> b)]"
  "requests (snd (getConversation cid w)) = requests w @ [GetConversation cid]"
  "requests (snd (getConversationByThreadId th w)) = requests w @ [GetConversationByThread th]"
  "requests (snd (updateConversation cid upd w)) = requests w @ [PatchConversation cid upd]"
  "requests (snd (deleteConversationAPI cid soft w)) =
     requests w @ [DeleteConversationReq cid (case soft of None \<Rightarrow> True | Some b \<Rightarrow> b)]"
  "requests (snd (createMessage p w)) = requests w @ [PostMessages p]"
  "requests (snd (getMessages cid lim off w)) =
     requests w @ [GetMessagesReq cid (case lim of None \<Rightarrow> 100 | Some l \<Rightarrow> l)
                     (case off of None \<Rightarrow> 0 | Some k \<Rightarrow> k)]"
  "requests (snd (getMessageCount cid w)) = requests w @ [GetMessageCount cid]"
  "requests (snd (deleteMessage mid w)) = requests w @ [DeleteMessageReq mid]"
  "requests (snd (deleteAllMessages cid w)) = requests w @ [DeleteAllMessagesReq cid]"
  by (simp_all add: createConversation_def getUserConversations_def getConversation_def
        getConversationByThreadId_def updateConversation_def deleteConversationAPI_def
        createMessage_def getMessages_def getMessageCount_def deleteMessage_def
        deleteAllMessages_def fetch_def Let_def)

text \<open>
  Claim C9. Every function of the client is to fail with an error that carries the HTTP
  status text of the unsuccessful response. \<open>createMessage\<close> does not: against a store
  that answers \<open>Internal Server Error\<close> its error is the fixed text
  \<open>Failed to save message\<close>, while \<open>createConversation\<close> on the same store reports the
  status text.
\<close>

theorem createMessage_error_without_status:
  "fst (createMessage \<lparr>p_conversation_id = 1, p_role = User,
                        p_content = \<lparr>content_text = ''hello'', metadata = None\<rparr>\<rparr> ex_world_down)
     = Inl (Error ''Failed to save message'')
   \<and> statusText (respond ex_world_down 0
        (PostMessages \<lparr>p_conversation_id = 1, p_role = User,
                        p_content = \<lparr>content_text = ''hello'', metadata = None\<rparr>\<rparr>))
       = ''Internal Server Error''
   \<and> fst (createConversation 42 None ex_world_down)
     = Inl (Error ''Failed to create conversation: Internal Server Error'')"
  by (simp add: createMessage_def createConversation_def fetch_def ex_defs)

section \<open>Conversation Session Manager: properties\<close>

text \<open>
  Claim C2. \<open>loadConversations\<close>: when the store reports success the fetched list is
  returned and stored, so the returned and the stored list are equal; when it does not,
  the empty list is returned, the stored list is the one from before the call and the
  error text is recorded. One list request is sent in either case.
\<close>

theorem loadConversations_result:
  "case loadConversations userId s w of (ret, s', w') \<Rightarrow>
     (ok (respond w (length (requests w)) (GetUserConversations userId False)) \<longrightarrow>
        ret = conversationsJson (respond w (length (requests w)) (GetUserConversations userId False))
        \<and> conversations s' = ret)
   \<and> (\<not> ok (respond w (length (requests w)) (GetUserConversations userId False)) \<longrightarrow>
        ret = [] \<and> conversations s' = conversations s
        \<and> error s' = Some ''Failed to load conversations'')
   \<and> requests w' = requests w @ [GetUserConversations userId False]"
  by (simp add: loadConversations_def getUserConversations_def fetch_def console_error_def Let_def)

theorem loadConversations_result_witness:
  "(case loadConversations 42 (ex_session\<lparr>conversations := [ex_conv_b]\<rparr>) ex_world of
      (ret, s', w') \<Rightarrow> ret = [ex_conv_a, ex_conv_b] \<and> conversations s' = [ex_conv_a, ex_conv_b])
   \<and> (case loadConversations 42 (ex_session\<lparr>conversations := [ex_conv_b]\<rparr>) ex_world_down of
      (ret, s', w') \<Rightarrow> ret = [] \<and> conversations s' = [ex_conv_b]
        \<and> error s' = Some ''Failed to load conversations'')"
  using loadConversations_result [where userId = 42 and s = "ex_session\<lparr>conversations := [ex_conv_b]\<rparr>" and w = ex_world]
    loadConversations_result [where userId = 42 and s = "ex_session\<lparr>conversations := [ex_conv_b]\<rparr>" and w = ex_world_down]
  by (simp add: ex_world_def ex_world_down_def ex_response_def ex_failure_def ex_session_def
        split: prod.splits)

text \<open>
  Claim C6, as amended. \<open>selectConversation\<close> with a thread id that no conversation
  of the captured list has: a warning is written, no request is sent, and the
  conversation list, the current conversation, the current thread and the messages
  stay as they were. The error cell does not stay as it was: the function clears it
  on entry, and the loading flag ends false.
\<close>

theorem selectConversation_absent:
  assumes "find (\<lambda>c. thread_id c = threadId) convs = None"
  shows "case selectConversation convs threadId s w of (s', w') \<Rightarrow>
           conversations s' = conversations s \<and> currentConversation s' = currentConversation s
         \<and> currentThreadId s' = currentThreadId s \<and> messages s' = messages s
         \<and> error s' = None \<and> isLoading s' = False
         \<and> requests w' = requests w
         \<and> console w' =
             console w @ [ConsoleWarn ''Conversation not in local state, reloading...'']"
  using assms by (simp add: selectConversation_def console_warn_def)

theorem selectConversation_absent_witness:
  "find (\<lambda>c. thread_id c = ''thread-z'') (conversations ex_session_error) = None
   \<and> (case selectConversation (conversations ex_session_error) ''thread-z'' ex_session_error ex_world
        of (s', w') \<Rightarrow> conversations s' = [ex_conv_a, ex_conv_b]
            \<and> currentConversation s' = Some ex_conv_a \<and> error s' = None \<and> requests w' = [])"
proof -
  have h: "find (\<lambda>c. thread_id c = ''thread-z'') (conversations ex_session_error) = None"
    by (simp add: ex_defs)
  show ?thesis
    using h selectConversation_absent [OF h, where s = ex_session_error and w = ex_world]
    by (simp add: ex_session_error_def ex_session_def ex_world_def split: prod.splits)
qed

text \<open>
  The claim as first stated also lists the error among the cells left unchanged. A
  session that holds an error from an earlier failed load loses it.
\<close>

theorem selectConversation_absent_counterexample:
  "''thread-z'' \<notin> thread_id ` set (conversations ex_session_error)
   \<and> error (fst (selectConversation (conversations ex_session_error) ''thread-z''
                   ex_session_error ex_world))
       \<noteq> error ex_session_error"
  by (simp add: selectConversation_def ex_defs)




text \<open>
  Claim C10. \<open>selectConversation\<close> (when it finds the conversation) and
  \<open>refreshMessages\<close> ask the store for the messages with limit 100 and offset 0, the
  defaults of \<open>getMessages\<close>, and replace the local messages by the answer. Against a
  store that answers a list request with the requested window of the stored messages,
  the local messages are the first 100 stored ones, so at most 100.
\<close>

theorem messages_fetched_with_default_window:
  assumes "\<forall>n cid lim off.
             ok (respond w n (GetMessagesReq cid lim off))
           \<and> messagesJson (respond w n (GetMessagesReq cid lim off))
               = take (nat lim) (drop (nat off) (stored cid))"
  shows "(find (\<lambda>c. thread_id c = threadId) convs = Some conv \<longrightarrow>
            (case selectConversation convs threadId s w of (s', w') \<Rightarrow>
               requests w' = requests w @ [GetMessagesReq (conversation_id conv) 100 0]
             \<and> messages s' = take 100 (stored (conversation_id conv))
             \<and> length (messages s') \<le> 100))
       \<and> (case refreshMessages (Some c) s w of (s', w') \<Rightarrow>
               requests w' = requests w @ [GetMessagesReq (conversation_id c) 100 0]
             \<and> messages s' = take 100 (stored (conversation_id c))
             \<and> length (messages s') \<le> 100)"
  using assms
  by (simp add: selectConversation_def refreshMessages_def getMessages_def fetch_def Let_def)

theorem messages_fetched_with_default_window_witness:
  "length (ex_stored 1) = 101
   \<and> find (\<lambda>c. thread_id c = ''thread-a'') (conversations ex_session) = Some ex_conv_a
   \<and> (case selectConversation (conversations ex_session) ''thread-a'' ex_session ex_store_world of
        (s', w') \<Rightarrow> requests w' = [GetMessagesReq 1 100 0] \<and> length (messages s') = 100)
   \<and> (case refreshMessages (Some ex_conv_a) ex_session ex_store_world of
        (s', w') \<Rightarrow> requests w' = [GetMessagesReq 1 100 0] \<and> length (messages s') = 100)"
proof -
  have h: "\<forall>n cid lim off.
             ok (respond ex_store_world n (GetMessagesReq cid lim off))
           \<and> messagesJson (respond ex_store_world n (GetMessagesReq cid lim off))
               = take (nat lim) (drop (nat off) (ex_stored cid))"
    by (simp add: ex_store_world_def ex_world_def ex_response_def)
  have f: "find (\<lambda>c. thread_id c = ''thread-a'') (conversations ex_session) = Some ex_conv_a"
    by (simp add: ex_session_def ex_conv_a_def)
  have l: "length (ex_stored 1) = 101"
    by (simp add: ex_stored_def)
  show ?thesis
    using f l messages_fetched_with_default_window [OF h, where threadId = "''thread-a''"
        and convs = "conversations ex_session" and conv = ex_conv_a and c = ex_conv_a
        and s = ex_session]
    by (simp add: ex_store_world_def ex_world_def ex_conv_a_def split: prod.splits)
qed

section \<open>Session Orchestrator: properties\<close>

lemma created_append [simp]:
  "created (w\<lparr>requests := requests w @ [r]\<rparr>) = created w + (if is_create r then 1 else 0)"
  by (simp add: created_def)

lemma created_console [simp]:
  "created (console_error l w) = created w" "created (console_warn l w) = created w"
  by (simp_all add: created_def console_error_def console_warn_def)

lemma respond_console [simp]:
  "respond (console_error l w) = respond w" "respond (console_warn l w) = respond w"
  "requests (console_error l w) = requests w" "requests (console_warn l w) = requests w"
  by (simp_all add: console_error_def console_warn_def)

lemma loadConversations_created:
  "created (snd (snd (loadConversations u s w))) = created w"
  by (simp add: loadConversations_def getUserConversations_def fetch_def Let_def)

lemma selectConversation_created:
  "created (snd (selectConversation convs th s w)) = created w"
  by (simp add: selectConversation_def getMessages_def fetch_def Let_def split: option.split)

lemma deleteConversation_created:
  "created (snd (deleteConversation cur cid s w)) = created w"
  by (simp add: deleteConversation_def deleteConversationAPI_def fetch_def Let_def)

lemma createNewConversation_created:
  "created (snd (snd (createNewConversation u ttl s w))) = created w + 1"
  by (simp add: createNewConversation_def createConversation_def fetch_def Let_def)

lemma createNewConversation_result:
  "fst (createNewConversation u (Some ttl) s w) =
     (if ok (respond w (length (requests w)) (PostConversations u ttl))
      then Inr (conversationJson (respond w (length (requests w)) (PostConversations u ttl)))
      else Inl (Error (''Failed to create conversation: '' @
                  statusText (respond w (length (requests w)) (PostConversations u ttl)))))"
  by (simp add: createNewConversation_def createConversation_def fetch_def Let_def)

lemma handleNewConversation_created:
  assumes "truthy_num user"
  shows "created (snd (snd (snd (handleNewConversation user v orc s w)))) = created w + 1"
proof (cases "createNewConversation (the user) (Some ''New Conversation'') s w")
  case (fields res s1 w1)
  then have c1: "created w1 = created w + 1"
    using createNewConversation_created [of "the user" "Some ''New Conversation''" s w] by simp
  show ?thesis
  proof (cases res)
    case (Inl err)
    with fields assms c1 show ?thesis by (simp add: handleNewConversation_def)
  next
    case (Inr resp)
    obtain convs s2 w2 where l: "loadConversations (the user) s1 w1 = (convs, s2, w2)"
      by (cases "loadConversations (the user) s1 w1")
    then have c2: "created w2 = created w1"
      using loadConversations_created [of "the user" s1 w1] by simp
    obtain s3 w3 where sel: "selectConversation (conversations v) (thread_id resp) s2 w2 = (s3, w3)"
      by (cases "selectConversation (conversations v) (thread_id resp) s2 w2")
    then have c3: "created w3 = created w2"
      using selectConversation_created [of "conversations v" "thread_id resp" s2 w2] by simp
    from fields Inr assms l sel c1 c2 c3 show ?thesis
      by (simp add: handleNewConversation_def)
  qed
qed

lemma handleNewConversation_result:
  assumes "truthy_num user"
  shows "(\<exists>err. fst (handleNewConversation user v orc s w) = Inl err)
           = (\<not> ok (respond w (length (requests w))
                      (PostConversations (the user) ''New Conversation'')))"
    and "autoCreateRef (fst (snd (handleNewConversation user v orc s w))) = autoCreateRef orc"
  using assms createNewConversation_result [of "the user" "''New Conversation''" s w]
  by (auto simp: handleNewConversation_def Let_def split: prod.splits sum.splits if_splits)

lemma autoCreate_latched:
  "autoCreateRef orc \<Longrightarrow> autoCreateConversation user v orc s w = (orc, s, w)"
  by (simp add: autoCreateConversation_def autoCreate_enter_def)

lemma autoCreate_flow_created:
  assumes "truthy_num user"
  shows "created (snd (snd (autoCreate_flow user v orc s w))) = created w + 1"
proof -
  obtain res orc1 s1 w1 where h: "handleNewConversation user v orc s w = (res, orc1, s1, w1)"
    by (cases "handleNewConversation user v orc s w")
  with handleNewConversation_created [OF assms, of v orc s w]
  have c1: "created w1 = created w + 1" by simp
  show ?thesis
  proof (cases res)
    case (Inl err)
    with h c1 show ?thesis by (simp add: autoCreate_flow_def)
  next
    case (Inr resp)
    obtain convs s2 w2 where l: "loadConversations (the user) s1 w1 = (convs, s2, w2)"
      by (cases "loadConversations (the user) s1 w1")
    with loadConversations_created [of "the user" s1 w1] have c2: "created w2 = created w1"
      by simp
    show ?thesis
    proof (cases resp)
      case None
      with h Inr l c1 c2 show ?thesis by (simp add: autoCreate_flow_def)
    next
      case (Some cv)
      obtain s3 w3 where sel: "selectConversation (conversations v) (thread_id cv) s2 w2 = (s3, w3)"
        by (cases "selectConversation (conversations v) (thread_id cv) s2 w2")
      with selectConversation_created [of "conversations v" "thread_id cv" s2 w2]
      have c3: "created w3 = created w2" by simp
      from h Inr l Some sel c1 c2 c3 show ?thesis by (simp add: autoCreate_flow_def)
    qed
  qed
qed

lemma autoCreate_flow_latch:
  assumes "truthy_num user" and "autoCreateRef orc"
  shows "autoCreateRef (fst (autoCreate_flow user v orc s w))
           = ok (respond w (length (requests w))
                  (PostConversations (the user) ''New Conversation''))"
proof -
  obtain res orc1 s1 w1 where h: "handleNewConversation user v orc s w = (res, orc1, s1, w1)"
    by (cases "handleNewConversation user v orc s w")
  from handleNewConversation_result [OF assms(1), of v orc s w] h assms(2)
  have r: "(\<exists>err. res = Inl err) = (\<not> ok (respond w (length (requests w))
                      (PostConversations (the user) ''New Conversation'')))"
    and l: "autoCreateRef orc1" by simp_all
  show ?thesis
  proof (cases res)
    case (Inl err)
    with h r show ?thesis by (simp add: autoCreate_flow_def)
  next
    case (Inr resp)
    with r have "ok (respond w (length (requests w))
                      (PostConversations (the user) ''New Conversation''))" by simp
    with h Inr l show ?thesis
      by (simp add: autoCreate_flow_def split: prod.splits option.splits)
  qed
qed

text \<open>
  Claim C1. When the auto-create trigger fires (a user, not loading, no conversations,
  no thread, latch not set): the latch is set in the part of the function that runs
  before any \<open>await\<close>; a second run of the effect while the latch is set changes
  nothing and sends nothing; and of two overlapping runs exactly one create request is
  sent. Afterwards the latch is set exactly when the store reported success for that
  request: it is cleared only when the creation failed.
\<close>

theorem autoCreate_exactly_one:
  assumes "truthy_num user" and "\<not> isLoading v" and "length (conversations v) = 0"
    and "\<not> truthy_str (currentThreadId v)" and "\<not> autoCreateRef orc"
  shows "autoCreate_enter user v orc = (True, orc\<lparr>autoCreateRef := True\<rparr>)
       \<and> autoCreateConversation user v2 (orc\<lparr>autoCreateRef := True\<rparr>) s2 w2
           = (orc\<lparr>autoCreateRef := True\<rparr>, s2, w2)
       \<and> (case two_concurrent_triggers user v v2 orc s w of (orc', s', w') \<Rightarrow>
             created w' = created w + 1
           \<and> autoCreateRef orc' = ok (respond w (length (requests w))
                                       (PostConversations (the user) ''New Conversation'')))"
proof -
  let ?orc1 = "orc\<lparr>autoCreateRef := True\<rparr>"
  have enter: "autoCreate_enter user v orc = (True, ?orc1)"
    using assms by (simp add: autoCreate_enter_def)
  have second: "\<And>v' s' w'. autoCreateConversation user v' ?orc1 s' w' = (?orc1, s', w')"
    by (rule autoCreate_latched) simp
  have two: "two_concurrent_triggers user v v2 orc s w = autoCreate_flow user v ?orc1 s w"
    by (simp add: two_concurrent_triggers_def enter second)
  have "created (snd (snd (autoCreate_flow user v ?orc1 s w))) = created w + 1"
    by (rule autoCreate_flow_created [OF assms(1)])
  moreover have "autoCreateRef (fst (autoCreate_flow user v ?orc1 s w))
           = ok (respond w (length (requests w)) (PostConversations (the user) ''New Conversation''))"
    by (rule autoCreate_flow_latch [OF assms(1)]) simp
  ultimately show ?thesis
    using enter second two by (simp add: split_beta)
qed

theorem autoCreate_exactly_one_witness:
  "case two_concurrent_triggers (Some 42) ex_session_empty ex_session_empty ex_orchestrator
          ex_session_empty ex_world of
     (orc', s', w') \<Rightarrow> created w' = 1 \<and> autoCreateRef orc'"
proof -
  have h: "truthy_num (Some 42)" "\<not> isLoading ex_session_empty"
    "length (conversations ex_session_empty) = 0"
    "\<not> truthy_str (currentThreadId ex_session_empty)" "\<not> autoCreateRef ex_orchestrator"
    by (simp_all add: ex_session_empty_def ex_orchestrator_def)
  show ?thesis
    using autoCreate_exactly_one [OF h, where ?v2.0 = ex_session_empty and s = ex_session_empty
        and w = ex_world]
    by (simp add: created_def ex_world_def ex_response_def split: prod.splits)
qed

lemma find_distinct:
  "distinct (map f xs) \<Longrightarrow> x \<in> set xs \<Longrightarrow> find (\<lambda>c. f c = f x) xs = Some x"
  by (induction xs) auto

lemma selectConversation_found:
  assumes "find (\<lambda>c. thread_id c = threadId) convs = Some conv"
  shows "currentConversation (fst (selectConversation convs threadId s w)) = Some conv
       \<and> currentThreadId (fst (selectConversation convs threadId s w)) = Some (thread_id conv)"
  using assms by (simp add: selectConversation_def getMessages_def fetch_def Let_def)

lemma deleteConversation_list:
  "ok (respond w (length (requests w)) (DeleteConversationReq cid True)) \<Longrightarrow>
   conversations (fst (deleteConversation cur cid s w))
     = filter (\<lambda>c. conversation_id c \<noteq> cid) (conversations s)"
  by (simp add: deleteConversation_def deleteConversationAPI_def fetch_def Let_def)

lemma selectConversation_list:
  "conversations (fst (selectConversation convs th s w)) = conversations s"
  by (simp add: selectConversation_def getMessages_def fetch_def Let_def split: option.split)

text \<open>
  Claim C8. \<open>handleDeleteConversation\<close> on the conversation that is current in the
  render, for a signed-in user and a list with distinct thread ids: when other
  conversations remain, the first of them becomes the current conversation, the deleted
  one leaves the list once the store has confirmed the deletion, and no create request
  is sent; when none remains, exactly one create request is sent.
\<close>

theorem handleDeleteConversation_fallback:
  assumes cur: "find (\<lambda>c. conversation_id c = conversationId
                         \<and> Some (thread_id c) = currentThreadId v) (conversations v) = Some d"
    and user: "truthy_num user"
    and uniq: "distinct (map thread_id (conversations v))"
  shows "case handleDeleteConversation user v conversationId orc s w of (orc', s', w') \<Rightarrow>
           (case filter (\<lambda>c. conversation_id c \<noteq> conversationId) (conversations v) of
              r # rest \<Rightarrow> currentConversation s' = Some r
                         \<and> currentThreadId s' = Some (thread_id r)
                         \<and> conversation_id r \<noteq> conversationId
                         \<and> (ok (respond w (length (requests w))
                                  (DeleteConversationReq conversationId True)) \<longrightarrow>
                              conversations s'
                                = filter (\<lambda>c. conversation_id c \<noteq> conversationId)
                                    (conversations s))
                         \<and> created w' = created w
            | [] \<Rightarrow> created w' = created w + 1)"
proof -
  obtain s1 w1 where del: "deleteConversation (currentConversation v) conversationId s w = (s1, w1)"
    by (cases "deleteConversation (currentConversation v) conversationId s w")
  with deleteConversation_created [of "currentConversation v" conversationId s w]
  have c1: "created w1 = created w" by simp
  from del deleteConversation_list [of w conversationId "currentConversation v" s]
  have l1: "ok (respond w (length (requests w)) (DeleteConversationReq conversationId True)) \<longrightarrow>
            conversations s1 = filter (\<lambda>c. conversation_id c \<noteq> conversationId) (conversations s)"
    by simp
  show ?thesis
  proof (cases "filter (\<lambda>c. conversation_id c \<noteq> conversationId) (conversations v)")
    case Nil
    obtain res orc2 s2 w2 where h: "handleNewConversation user v orc s1 w1 = (res, orc2, s2, w2)"
      by (cases "handleNewConversation user v orc s1 w1")
    with handleNewConversation_created [OF user, of v orc s1 w1]
    have "created w2 = created w1 + 1" by simp
    with cur del Nil user h c1 show ?thesis
      by (simp add: handleDeleteConversation_def split: sum.splits)
  next
    case (Cons r rest)
    then have mem: "r \<in> set (filter (\<lambda>c. conversation_id c \<noteq> conversationId) (conversations v))"
      by simp
    then have "r \<in> set (conversations v)" and other: "conversation_id r \<noteq> conversationId"
      by simp_all
    with uniq have f: "find (\<lambda>c. thread_id c = thread_id r) (conversations v) = Some r"
      by (simp add: find_distinct)
    obtain s2 w2 where sel: "selectConversation (conversations v) (thread_id r) s1 w1 = (s2, w2)"
      by (cases "selectConversation (conversations v) (thread_id r) s1 w1")
    with selectConversation_found [OF f, of s1 w1]
      selectConversation_created [of "conversations v" "thread_id r" s1 w1]
      selectConversation_list [of "conversations v" "thread_id r" s1 w1]
    have "currentConversation s2 = Some r" "currentThreadId s2 = Some (thread_id r)"
      "created w2 = created w1" "conversations s2 = conversations s1" by simp_all
    with cur del Cons sel c1 l1 other show ?thesis
      by (simp add: handleDeleteConversation_def handleSelectConversation_def)
  qed
qed

theorem handleDeleteConversation_fallback_witness:
  "(case handleDeleteConversation (Some 42) ex_session 1 ex_orchestrator ex_session ex_world of
      (orc', s', w') \<Rightarrow> currentConversation s' = Some ex_conv_b
         \<and> currentThreadId s' = Some ''thread-b'' \<and> conversations s' = [ex_conv_b]
         \<and> created w' = 0)
   \<and> (case handleDeleteConversation (Some 42) ex_session_single 1 ex_orchestrator
              ex_session_single ex_world of
      (orc', s', w') \<Rightarrow> created w' = 1)"
proof -
  have u: "truthy_num (Some 42)" by simp
  have c1: "find (\<lambda>c. conversation_id c = 1 \<and> Some (thread_id c) = currentThreadId ex_session)
              (conversations ex_session) = Some ex_conv_a"
    by (simp add: ex_session_def ex_conv_a_def)
  have d1: "distinct (map thread_id (conversations ex_session))"
    by (simp add: ex_session_def ex_conv_a_def ex_conv_b_def)
  have c2: "find (\<lambda>c. conversation_id c = 1 \<and> Some (thread_id c) = currentThreadId ex_session_single)
              (conversations ex_session_single) = Some ex_conv_a"
    by (simp add: ex_session_single_def ex_session_def ex_conv_a_def)
  have d2: "distinct (map thread_id (conversations ex_session_single))"
    by (simp add: ex_session_single_def ex_session_def)
  show ?thesis
    using handleDeleteConversation_fallback [OF c1 u d1, where orc = ex_orchestrator
        and s = ex_session and w = ex_world]
      handleDeleteConversation_fallback [OF c2 u d2, where orc = ex_orchestrator
        and s = ex_session_single and w = ex_world]
    by (simp add: created_def ex_world_def ex_response_def ex_session_def ex_session_single_def
          ex_conv_a_def ex_conv_b_def split: prod.splits)
qed

section \<open>Message Persistence Bridge: properties\<close>

lemma createMessage_snd:
  "snd (createMessage p w) = w\<lparr>requests := requests w @ [PostMessages p]\<rparr>"
  by (simp add: createMessage_def fetch_def)

lemma createMessage_fst:
  "fst (createMessage p w) =
     (if ok (respond w (length (requests w)) (PostMessages p))
      then Inr (messageJson (respond w (length (requests w)) (PostMessages p)))
      else Inl (Error ''Failed to save message''))"
  by (simp add: createMessage_def fetch_def)

lemma copilot_message_id_content_of [simp]:
  "copilot_message_id \<lparr>p_conversation_id = c, p_role = r, p_content = content_of m w\<rparr> = sm_id m"
  by (simp add: copilot_message_id_def content_of_def)

lemma payload_core_content_of [simp]:
  "payload_core \<lparr>p_conversation_id = c, p_role = role_of m, p_content = content_of m w\<rparr>
     = message_core c m"
  by (simp add: payload_core_def message_core_def copilot_message_id_def content_of_def)

lemma saveNewMessages_skip:
  "sm_id m = [] \<or> sm_id m \<in> savedMessageIds t \<Longrightarrow>
   saveNewMessages c (m # ms) t w = saveNewMessages c ms t w"
  by simp

lemma saveNewMessages_system:
  "sm_id m \<noteq> [] \<Longrightarrow> sm_id m \<notin> savedMessageIds t \<Longrightarrow> sm_role m = ''system'' \<Longrightarrow>
   saveNewMessages c (m # ms) t w =
     saveNewMessages c ms (t\<lparr>savedMessageIds := insert (sm_id m) (savedMessageIds t)\<rparr>) w"
  by simp

lemma saveNewMessages_persist:
  "eligible t m \<Longrightarrow>
   saveNewMessages c (m # ms) t w =
     (if ok (respond w (length (requests w))
               (PostMessages \<lparr>p_conversation_id = c, p_role = role_of m,
                              p_content = content_of m w\<rparr>))
      then saveNewMessages c ms (t\<lparr>savedMessageIds := insert (sm_id m) (savedMessageIds t)\<rparr>)
             (w\<lparr>requests := requests w @
                    [PostMessages \<lparr>p_conversation_id = c, p_role = role_of m,
                                   p_content = content_of m w\<rparr>]\<rparr>)
      else saveNewMessages c ms t
             (console_error ''Failed to save message:''
                (w\<lparr>requests := requests w @
                    [PostMessages \<lparr>p_conversation_id = c, p_role = role_of m,
                                   p_content = content_of m w\<rparr>]\<rparr>)))"
  by (simp add: eligible_def createMessage_def fetch_def)

lemma message_cases:
  obtains (skip) "sm_id m = [] \<or> sm_id m \<in> savedMessageIds t"
  | (system) "sm_id m \<noteq> []" "sm_id m \<notin> savedMessageIds t" "sm_role m = ''system''"
  | (persist) "eligible t m"
  unfolding eligible_def by blast

lemma saveNewMessages_induct [case_names Nil skip system saved failed]:
  assumes "\<And>t w. P [] t w"
    and "\<And>m ms t w. sm_id m = [] \<or> sm_id m \<in> savedMessageIds t \<Longrightarrow>
           saveNewMessages c (m # ms) t w = saveNewMessages c ms t w \<Longrightarrow>
           P ms t w \<Longrightarrow> P (m # ms) t w"
    and "\<And>m ms t w t1. sm_id m \<noteq> [] \<Longrightarrow> sm_id m \<notin> savedMessageIds t \<Longrightarrow>
           sm_role m = ''system'' \<Longrightarrow>
           t1 = t\<lparr>savedMessageIds := insert (sm_id m) (savedMessageIds t)\<rparr> \<Longrightarrow>
           saveNewMessages c (m # ms) t w = saveNewMessages c ms t1 w \<Longrightarrow>
           P ms t1 w \<Longrightarrow> P (m # ms) t w"
    and "\<And>m ms t w p t1 w1. eligible t m \<Longrightarrow>
           p = \<lparr>p_conversation_id = c, p_role = role_of m, p_content = content_of m w\<rparr> \<Longrightarrow>
           ok (respond w (length (requests w)) (PostMessages p)) \<Longrightarrow>
           t1 = t\<lparr>savedMessageIds := insert (sm_id m) (savedMessageIds t)\<rparr> \<Longrightarrow>
           w1 = w\<lparr>requests := requests w @ [PostMessages p]\<rparr> \<Longrightarrow>
           saveNewMessages c (m # ms) t w = saveNewMessages c ms t1 w1 \<Longrightarrow>
           P ms t1 w1 \<Longrightarrow> P (m # ms) t w"
    and "\<And>m ms t w p w1. eligible t m \<Longrightarrow>
           p = \<lparr>p_conversation_id = c, p_role = role_of m, p_content = content_of m w\<rparr> \<Longrightarrow>
           \<not> ok (respond w (length (requests w)) (PostMessages p)) \<Longrightarrow>
           w1 = console_error ''Failed to save message:''
                  (w\<lparr>requests := requests w @ [PostMessages p]\<rparr>) \<Longrightarrow>
           saveNewMessages c (m # ms) t w = saveNewMessages c ms t w1 \<Longrightarrow>
           P ms t w1 \<Longrightarrow> P (m # ms) t w"
  shows "P ms t w"
proof (induction ms arbitrary: t w)
  case Nil
  show ?case by (rule assms(1))
next
  case (Cons m ms t w)
  let ?t1 = "t\<lparr>savedMessageIds := insert (sm_id m) (savedMessageIds t)\<rparr>"
  show ?case
  proof (cases rule: message_cases [of m t])
    case skip
    then have eq: "saveNewMessages c (m # ms) t w = saveNewMessages c ms t w"
      by (rule saveNewMessages_skip)
    show ?thesis using skip eq Cons.IH by (rule assms(2))
  next
    case system
    then have eq: "saveNewMessages c (m # ms) t w = saveNewMessages c ms ?t1 w"
      by (rule saveNewMessages_system)
    show ?thesis using system refl eq Cons.IH by (rule assms(3))
  next
    case persist
    let ?p = "\<lparr>p_conversation_id = c, p_role = role_of m, p_content = content_of m w\<rparr>"
    let ?w1 = "w\<lparr>requests := requests w @ [PostMessages ?p]\<rparr>"
    let ?w2 = "console_error ''Failed to save message:'' ?w1"
    show ?thesis
    proof (cases "ok (respond w (length (requests w)) (PostMessages ?p))")
      case True
      with persist have eq: "saveNewMessages c (m # ms) t w = saveNewMessages c ms ?t1 ?w1"
        by (simp only: saveNewMessages_persist if_True)
      show ?thesis using persist refl True refl refl eq Cons.IH by (rule assms(4))
    next
      case False
      with persist have eq: "saveNewMessages c (m # ms) t w = saveNewMessages c ms t ?w2"
        by (simp only: saveNewMessages_persist if_False)
      show ?thesis using persist refl False refl eq Cons.IH by (rule assms(5))
    qed
  qed
qed

lemma saveNewMessages_frame:
  "respond (snd (saveNewMessages c ms t w)) = respond w
   \<and> clock (snd (saveNewMessages c ms t w)) = clock w
   \<and> isInitialLoad (fst (saveNewMessages c ms t w)) = isInitialLoad t
   \<and> savedMessageIds t \<subseteq> savedMessageIds (fst (saveNewMessages c ms t w))
   \<and> (\<exists>rs. requests (snd (saveNewMessages c ms t w)) = requests w @ rs)"
proof (induction ms t w rule: saveNewMessages_induct [where c = c])
  case (Nil t w)
  show ?case by simp
next
  case (skip m ms t w)
  then show ?case by (simp del: saveNewMessages.simps)
next
  case (system m ms t w t1)
  then show ?case by (auto simp del: saveNewMessages.simps)
next
  case (saved m ms t w p t1 w1)
  then show ?case by (auto simp del: saveNewMessages.simps)
next
  case (failed m ms t w p w1)
  then show ?case by (auto simp del: saveNewMessages.simps simp: console_error_def)
qed

lemma requests_sent_between:
  "requests (snd (saveNewMessages c ms t w))
     = requests w @ sent_between w (snd (saveNewMessages c ms t w))"
  using saveNewMessages_frame [of c ms t w] by (auto simp: sent_between_def)

lemma sent_between_step:
  assumes "requests w1 = requests w @ [r]"
  shows "sent_between w (snd (saveNewMessages c ms t w1))
           = r # sent_between w1 (snd (saveNewMessages c ms t w1))"
proof -
  obtain rs where "requests (snd (saveNewMessages c ms t w1)) = requests w1 @ rs"
    using saveNewMessages_frame [of c ms t w1] by blast
  with assms show ?thesis by (simp add: sent_between_def)
qed

lemma persist_results_step:
  assumes "requests w1 = requests w @ [PostMessages p]" and "respond w1 = respond w"
  shows "persist_results w (snd (saveNewMessages c ms t w1))
           = (copilot_message_id p, ok (respond w (length (requests w)) (PostMessages p)))
             # persist_results w1 (snd (saveNewMessages c ms t w1))"
  using assms by (simp add: persist_results_def sent_between_step [OF assms(1)])

lemma eligible_insert_other:
  "sm_id m' \<noteq> i \<Longrightarrow>
   eligible (t\<lparr>savedMessageIds := insert i (savedMessageIds t)\<rparr>) m' = eligible t m'"
  by (simp add: eligible_def)

lemma filter_eligible_insert:
  assumes "i \<notin> sm_id ` set ms"
  shows "filter (eligible (t\<lparr>savedMessageIds := insert i (savedMessageIds t)\<rparr>)) ms
           = filter (eligible t) ms"
proof (rule filter_cong [OF refl])
  fix m' assume "m' \<in> set ms"
  with assms have "sm_id m' \<noteq> i" by blast
  then show "eligible (t\<lparr>savedMessageIds := insert i (savedMessageIds t)\<rparr>) m' = eligible t m'"
    by (rule eligible_insert_other)
qed

lemma saveNewMessages_seen:
  "savedMessageIds (fst (saveNewMessages c ms t w))
     = savedMessageIds t
       \<union> {sm_id m |m. m \<in> set ms \<and> sm_id m \<noteq> [] \<and> sm_role m = ''system''}
       \<union> {i. (i, True) \<in> set (persist_results w (snd (saveNewMessages c ms t w)))}"
proof (induction ms t w rule: saveNewMessages_induct [where c = c])
  case (Nil t w)
  show ?case by (simp add: persist_results_def sent_between_def)
next
  case (skip m ms t w)
  then show ?case by (auto simp del: saveNewMessages.simps)
next
  case (system m ms t w t1)
  then show ?case by (auto simp del: saveNewMessages.simps)
next
  case (saved m ms t w p t1 w1)
  have "persist_results w (snd (saveNewMessages c ms t1 w1))
     = (copilot_message_id p, ok (respond w (length (requests w)) (PostMessages p)))
       # persist_results w1 (snd (saveNewMessages c ms t1 w1))"
    by (rule persist_results_step) (simp_all add: saved.hyps)
  with saved show ?case by (auto simp del: saveNewMessages.simps simp: eligible_def)
next
  case (failed m ms t w p w1)
  have "persist_results w (snd (saveNewMessages c ms t w1))
     = (copilot_message_id p, ok (respond w (length (requests w)) (PostMessages p)))
       # persist_results w1 (snd (saveNewMessages c ms t w1))"
    by (rule persist_results_step) (simp_all add: failed.hyps console_error_def)
  with failed show ?case by (auto simp del: saveNewMessages.simps simp: eligible_def)
qed


lemma persisted_payloads_step:
  assumes "requests w1 = requests w @ [PostMessages p]"
  shows "persisted_payloads (sent_between w (snd (saveNewMessages c ms t w1)))
           = p # persisted_payloads (sent_between w1 (snd (saveNewMessages c ms t w1)))"
  by (simp add: sent_between_step [OF assms])

lemma saveNewMessages_attempts:
  "distinct (map sm_id ms) \<Longrightarrow>
   map payload_core (persisted_payloads (sent_between w (snd (saveNewMessages c ms t w))))
     = map (message_core c) (filter (eligible t) ms)
   \<and> map fst (persist_results w (snd (saveNewMessages c ms t w)))
     = map sm_id (filter (eligible t) ms)"
proof (induction ms t w rule: saveNewMessages_induct [where c = c])
  case (Nil t w)
  show ?case by (simp add: persist_results_def sent_between_def)
next
  case (skip m ms t w)
  from skip.hyps(1) have "\<not> eligible t m" by (auto simp: eligible_def)
  with skip.IH skip.prems show ?case by (simp del: saveNewMessages.simps add: skip.hyps(2))
next
  case (system m ms t w t1)
  from system.prems have "sm_id m \<notin> sm_id ` set ms" by simp
  then have flt: "filter (eligible t1) ms = filter (eligible t) ms"
    unfolding system.hyps by (rule filter_eligible_insert)
  from system.hyps(3) have "\<not> eligible t m" by (simp add: eligible_def)
  with system.IH system.prems flt show ?case
    by (simp del: saveNewMessages.simps add: system.hyps(5))
next
  case (saved m ms t w p t1 w1)
  from saved.prems have "sm_id m \<notin> sm_id ` set ms" by simp
  then have flt: "filter (eligible t1) ms = filter (eligible t) ms"
    unfolding saved.hyps by (rule filter_eligible_insert)
  have req: "requests w1 = requests w @ [PostMessages p]" and rsp: "respond w1 = respond w"
    by (simp_all add: saved.hyps)
  show ?case
    using saved.IH saved.prems saved.hyps(1)
    by (simp del: saveNewMessages.simps
          add: saved.hyps(6) persisted_payloads_step [OF req] persist_results_step [OF req rsp]
               flt saved.hyps(2))
next
  case (failed m ms t w p w1)
  have req: "requests w1 = requests w @ [PostMessages p]" and rsp: "respond w1 = respond w"
    by (simp_all add: failed.hyps console_error_def)
  show ?case
    using failed.IH failed.prems failed.hyps(1)
    by (simp del: saveNewMessages.simps
          add: failed.hyps(5) persisted_payloads_step [OF req] persist_results_step [OF req rsp]
               failed.hyps(2))
qed

lemma saveNewMessages_results_unseen:
  "(i, b) \<in> set (persist_results w (snd (saveNewMessages c ms t w))) \<Longrightarrow>
   i \<notin> savedMessageIds t \<and> i \<noteq> [] \<and> i \<in> sm_id ` set (filter (eligible t) ms)"
proof (induction ms t w rule: saveNewMessages_induct [where c = c])
  case (Nil t w)
  then show ?case by (simp add: persist_results_def sent_between_def)
next
  case (skip m ms t w)
  then show ?case by (auto simp del: saveNewMessages.simps)
next
  case (system m ms t w t1)
  then show ?case by (auto simp del: saveNewMessages.simps simp: eligible_def)
next
  case (saved m ms t w p t1 w1)
  have req: "requests w1 = requests w @ [PostMessages p]" and rsp: "respond w1 = respond w"
    by (simp_all add: saved.hyps)
  show ?case
    using saved.IH saved.prems saved.hyps(1)
    by (auto simp del: saveNewMessages.simps
          simp: saved.hyps(6) persist_results_step [OF req rsp] saved.hyps(2) saved.hyps(4)
                eligible_def)
next
  case (failed m ms t w p w1)
  have req: "requests w1 = requests w @ [PostMessages p]" and rsp: "respond w1 = respond w"
    by (simp_all add: failed.hyps console_error_def)
  show ?case
    using failed.IH failed.prems failed.hyps(1)
    by (auto simp del: saveNewMessages.simps
          simp: failed.hyps(5) persist_results_step [OF req rsp] failed.hyps(2) eligible_def)
qed

lemma saveNewMessages_all_seen:
  "\<forall>m \<in> set ms. sm_id m = [] \<or> sm_id m \<in> savedMessageIds t \<Longrightarrow>
   saveNewMessages c ms t w = (t, w)"
  by (induction ms) simp_all

lemma saveNewMessages_seen_prefix:
  "\<forall>m \<in> set old. sm_id m = [] \<or> sm_id m \<in> savedMessageIds t \<Longrightarrow>
   saveNewMessages c (old @ new) t w = saveNewMessages c new t w"
  by (induction old) simp_all

lemma snapshot_fold:
  "fold (\<lambda>msg seen. if sm_id msg \<noteq> [] then insert (sm_id msg) seen else seen) msgs S
     = S \<union> {sm_id m |m. m \<in> set msgs \<and> sm_id m \<noteq> []}"
  by (induction msgs arbitrary: S) auto


lemma persist_results_refl [simp]: "persist_results w w = []"
  by (simp add: persist_results_def sent_between_def)

lemma saveNewMessages_no_failure:
  "\<forall>(i, b) \<in> set (persist_results w (snd (saveNewMessages c ms t w))). b \<Longrightarrow>
   \<forall>m \<in> set ms. sm_id m = [] \<or> sm_id m \<in> savedMessageIds (fst (saveNewMessages c ms t w))"
proof (induction ms t w rule: saveNewMessages_induct [where c = c])
  case (Nil t w)
  show ?case by simp
next
  case (skip m ms t w)
  with saveNewMessages_frame [of c ms t w] show ?case
    by (auto simp del: saveNewMessages.simps)
next
  case (system m ms t w t1)
  with saveNewMessages_frame [of c ms t1 w] show ?case
    by (auto simp del: saveNewMessages.simps)
next
  case (saved m ms t w p t1 w1)
  have req: "requests w1 = requests w @ [PostMessages p]" and rsp: "respond w1 = respond w"
    by (simp_all add: saved.hyps)
  from saved.prems saved.IH saveNewMessages_frame [of c ms t1 w1] show ?case
    by (auto simp del: saveNewMessages.simps
          simp: saved.hyps(6) saved.hyps(4) persist_results_step [OF req rsp])
next
  case (failed m ms t w p w1)
  have req: "requests w1 = requests w @ [PostMessages p]" and rsp: "respond w1 = respond w"
    by (simp_all add: failed.hyps console_error_def)
  from failed.prems failed.hyps(3) show ?case
    by (simp del: saveNewMessages.simps
          add: failed.hyps(5) persist_results_step [OF req rsp])
qed

lemma saveNewMessages_retry:
  "distinct (map sm_id ms) \<Longrightarrow>
   map sm_id (filter (eligible (fst (saveNewMessages c ms t w))) ms)
     = map fst (filter (\<lambda>(i, b). \<not> b) (persist_results w (snd (saveNewMessages c ms t w))))"
proof (induction ms t w rule: saveNewMessages_induct [where c = c])
  case (Nil t w)
  show ?case by simp
next
  case (skip m ms t w)
  from skip.hyps(1) saveNewMessages_frame [of c ms t w]
  have "\<not> eligible (fst (saveNewMessages c ms t w)) m" by (auto simp: eligible_def)
  with skip.IH skip.prems show ?case by (simp del: saveNewMessages.simps add: skip.hyps(2))
next
  case (system m ms t w t1)
  from system.hyps(4) saveNewMessages_frame [of c ms t1 w]
  have "\<not> eligible (fst (saveNewMessages c ms t1 w)) m" by (auto simp: eligible_def)
  with system.IH system.prems show ?case
    by (simp del: saveNewMessages.simps add: system.hyps(5))
next
  case (saved m ms t w p t1 w1)
  have req: "requests w1 = requests w @ [PostMessages p]" and rsp: "respond w1 = respond w"
    by (simp_all add: saved.hyps)
  from saved.hyps(4) saveNewMessages_frame [of c ms t1 w1]
  have "\<not> eligible (fst (saveNewMessages c ms t1 w1)) m" by (auto simp: eligible_def)
  with saved.IH saved.prems saved.hyps(3) show ?case
    by (simp del: saveNewMessages.simps add: saved.hyps(6) persist_results_step [OF req rsp])
next
  case (failed m ms t w p w1)
  have req: "requests w1 = requests w @ [PostMessages p]" and rsp: "respond w1 = respond w"
    by (simp_all add: failed.hyps console_error_def)
  from failed.prems have fresh: "sm_id m \<notin> sm_id ` set ms" by simp
  have "sm_id m \<notin> savedMessageIds (fst (saveNewMessages c ms t w1))"
  proof
    assume "sm_id m \<in> savedMessageIds (fst (saveNewMessages c ms t w1))"
    then consider "sm_id m \<in> savedMessageIds t"
      | "sm_id m \<in> {sm_id m' |m'. m' \<in> set ms \<and> sm_id m' \<noteq> [] \<and> sm_role m' = ''system''}"
      | "(sm_id m, True) \<in> set (persist_results w1 (snd (saveNewMessages c ms t w1)))"
      unfolding saveNewMessages_seen [of c ms t w1] by blast
    then show False
    proof cases
      case 1
      with failed.hyps(1) show False by (simp add: eligible_def)
    next
      case 2
      with fresh show False by auto
    next
      case 3
      from saveNewMessages_results_unseen [OF 3] fresh show False by auto
    qed
  qed
  with failed.hyps(1) have "eligible (fst (saveNewMessages c ms t w1)) m"
    by (simp add: eligible_def)
  with failed.IH failed.prems failed.hyps(3) show ?case
    by (simp del: saveNewMessages.simps
          add: failed.hyps(5) persist_results_step [OF req rsp] failed.hyps(2))
qed

lemma saveNewMessages_seen_iff_saved:
  assumes "distinct (map sm_id ms)" and "m \<in> set ms" and "eligible t m"
  shows "sm_id m \<in> savedMessageIds (fst (saveNewMessages c ms t w))
           \<longleftrightarrow> (sm_id m, True) \<in> set (persist_results w (snd (saveNewMessages c ms t w)))"
proof -
  have "sm_id m \<notin> {sm_id m' |m'. m' \<in> set ms \<and> sm_id m' \<noteq> [] \<and> sm_role m' = ''system''}"
  proof
    assume "sm_id m \<in> {sm_id m' |m'. m' \<in> set ms \<and> sm_id m' \<noteq> [] \<and> sm_role m' = ''system''}"
    then obtain m' where m': "m' \<in> set ms" "sm_id m' = sm_id m" "sm_role m' = ''system''"
      by auto
    from assms(1) have "inj_on sm_id (set ms)" by (simp add: distinct_map)
    with m'(1,2) assms(2) have "m' = m" by (auto dest: inj_onD)
    with m'(3) assms(3) show False by (simp add: eligible_def)
  qed
  moreover from assms(3) have "sm_id m \<notin> savedMessageIds t" by (simp add: eligible_def)
  ultimately show ?thesis
    unfolding saveNewMessages_seen [of c ms t w] by blast
qed

lemmas bridge_eval = useMessagePersistence_effect_def createMessage_def fetch_def
  console_error_def content_of_def role_of_def now_def persist_results_def sent_between_def
  copilot_message_id_def payload_core_def message_core_def eligible_def

text \<open>
  Claim C3. The first pass of an enabled bridge over a non-empty stream in the snapshot
  phase sends nothing and leaves the world as it was, ends the snapshot phase and adds
  the id of every stream message that has one to the seen set. A later pass over the
  stream grown by \<open>new\<close> sends one create-message request for each appended message it
  does not skip, in the order of the stream.
\<close>

theorem bridge_snapshot_phase:
  assumes "enabled" and "truthy_num conversationId" and "isInitialLoad t" and "snap \<noteq> []"
    and "distinct (map sm_id new)"
  shows "case useMessagePersistence_effect enabled conversationId snap t w of (t1, w1) \<Rightarrow>
           w1 = w \<and> \<not> isInitialLoad t1
         \<and> savedMessageIds t1
             = savedMessageIds t \<union> set (filter (\<lambda>i. i \<noteq> []) (map sm_id snap))
         \<and> (case useMessagePersistence_effect enabled conversationId (snap @ new) t1 w' of
              (t2, w2) \<Rightarrow>
                map payload_core (persisted_payloads (sent_between w' w2))
                  = map (message_core (the conversationId)) (filter (eligible t1) new))"
proof -
  let ?t1 = "t\<lparr>savedMessageIds :=
                 fold (\<lambda>msg seen. if sm_id msg \<noteq> [] then insert (sm_id msg) seen else seen)
                   snap (savedMessageIds t),
               isInitialLoad := False\<rparr>"
  have first: "useMessagePersistence_effect enabled conversationId snap t w = (?t1, w)"
    using assms(1-4) by (simp add: useMessagePersistence_effect_def)
  have seen: "savedMessageIds ?t1
                = savedMessageIds t \<union> set (filter (\<lambda>i. i \<noteq> []) (map sm_id snap))"
    by (auto simp: snapshot_fold)
  then have "\<forall>m \<in> set snap. sm_id m = [] \<or> sm_id m \<in> savedMessageIds ?t1"
    by auto
  then have "saveNewMessages (the conversationId) (snap @ new) ?t1 w'
               = saveNewMessages (the conversationId) new ?t1 w'"
    by (rule saveNewMessages_seen_prefix)
  then have later: "useMessagePersistence_effect enabled conversationId (snap @ new) ?t1 w'
                      = saveNewMessages (the conversationId) new ?t1 w'"
    using assms(1,2,4) by (simp add: useMessagePersistence_effect_def)
  from saveNewMessages_attempts [OF assms(5), of w' "the conversationId" ?t1]
  have "map payload_core (persisted_payloads
            (sent_between w' (snd (saveNewMessages (the conversationId) new ?t1 w'))))
          = map (message_core (the conversationId)) (filter (eligible ?t1) new)"
    by simp
  with first seen later show ?thesis by (simp add: split_beta)
qed

theorem bridge_snapshot_phase_witness:
  "case useMessagePersistence_effect True (Some 1) ex_snapshot ex_tracker_fresh ex_world of
     (t1, w1) \<Rightarrow>
       w1 = ex_world \<and> \<not> isInitialLoad t1 \<and> savedMessageIds t1 = {''h1'', ''h2'', ''h3''}
     \<and> (case useMessagePersistence_effect True (Some 1) (ex_snapshot @ ex_appended) t1 ex_world of
          (t2, w2) \<Rightarrow>
            map payload_core (persisted_payloads (sent_between ex_world w2))
              = [(1, User, ''question'', ''n1''), (1, Assistant, ''answer'', ''n2'')])"
proof -
  have h: "True" "truthy_num (Some 1)" "isInitialLoad ex_tracker_fresh" "ex_snapshot \<noteq> []"
    "distinct (map sm_id ex_appended)"
    by (simp_all add: ex_tracker_fresh_def ex_snapshot_def ex_appended_def)
  show ?thesis
    using bridge_snapshot_phase [OF h, where w = ex_world and w' = ex_world]
    by (auto simp: ex_tracker_fresh_def ex_snapshot_def ex_appended_def eligible_def
          message_core_def role_of_def split: prod.splits)
qed

text \<open>
  Claim C4. No pass of the bridge sends a create-message request for an id that is in
  the seen set when the pass starts. A pass over a stream all of whose ids are seen
  sends nothing and leaves the seen set as it was; after a pass in which no persist
  failed, a replay of the same stream sends nothing.
\<close>

theorem bridge_seen_not_persisted_again:
  "case useMessagePersistence_effect enabled conversationId msgs t w of (t1, w1) \<Rightarrow>
     (\<forall>(i, b) \<in> set (persist_results w w1). i \<notin> savedMessageIds t)
   \<and> ((\<forall>m \<in> set msgs. sm_id m \<noteq> [] \<longrightarrow> sm_id m \<in> savedMessageIds t) \<longrightarrow>
        w1 = w \<and> savedMessageIds t1 = savedMessageIds t)
   \<and> ((\<forall>(i, b) \<in> set (persist_results w w1). b) \<longrightarrow>
        snd (useMessagePersistence_effect enabled conversationId msgs t1 w1) = w1)"
proof (cases "\<not> enabled \<or> \<not> truthy_num conversationId \<or> msgs = []")
  case True
  then have "useMessagePersistence_effect enabled conversationId msgs t w = (t, w)"
    by (auto simp: useMessagePersistence_effect_def)
  then show ?thesis by simp
next
  case active: False
  show ?thesis
  proof (cases "isInitialLoad t")
    case True
    let ?t1 = "t\<lparr>savedMessageIds :=
                 fold (\<lambda>msg seen. if sm_id msg \<noteq> [] then insert (sm_id msg) seen else seen)
                   msgs (savedMessageIds t),
               isInitialLoad := False\<rparr>"
    have first: "useMessagePersistence_effect enabled conversationId msgs t w = (?t1, w)"
      using active True by (simp add: useMessagePersistence_effect_def)
    have "\<forall>m \<in> set msgs. sm_id m = [] \<or> sm_id m \<in> savedMessageIds ?t1"
      by (auto simp: snapshot_fold)
    then have "saveNewMessages (the conversationId) msgs ?t1 w = (?t1, w)"
      by (rule saveNewMessages_all_seen)
    then have again: "useMessagePersistence_effect enabled conversationId msgs ?t1 w = (?t1, w)"
      using active by (simp add: useMessagePersistence_effect_def)
    have "(\<forall>m \<in> set msgs. sm_id m \<noteq> [] \<longrightarrow> sm_id m \<in> savedMessageIds t) \<longrightarrow>
            savedMessageIds ?t1 = savedMessageIds t"
      by (auto simp: snapshot_fold)
    with first again show ?thesis by simp
  next
    case False
    let ?c = "the conversationId"
    let ?r = "saveNewMessages ?c msgs t w"
    have first: "useMessagePersistence_effect enabled conversationId msgs t w = ?r"
      using active False by (simp add: useMessagePersistence_effect_def)
    have a: "\<forall>(i, b) \<in> set (persist_results w (snd ?r)). i \<notin> savedMessageIds t"
      using saveNewMessages_results_unseen [of _ _ w ?c msgs t] by blast
    have b: "(\<forall>m \<in> set msgs. sm_id m \<noteq> [] \<longrightarrow> sm_id m \<in> savedMessageIds t) \<longrightarrow> ?r = (t, w)"
      using saveNewMessages_all_seen [of msgs t ?c w] by blast
    have c: "(\<forall>(i, b) \<in> set (persist_results w (snd ?r)). b) \<longrightarrow>
               snd (useMessagePersistence_effect enabled conversationId msgs (fst ?r) (snd ?r))
                 = snd ?r"
    proof
      assume "\<forall>(i, b) \<in> set (persist_results w (snd ?r)). b"
      then have "\<forall>m \<in> set msgs. sm_id m = [] \<or> sm_id m \<in> savedMessageIds (fst ?r)"
        by (rule saveNewMessages_no_failure)
      then have "saveNewMessages ?c msgs (fst ?r) (snd ?r) = (fst ?r, snd ?r)"
        by (rule saveNewMessages_all_seen)
      moreover have "\<not> isInitialLoad (fst ?r)"
        using saveNewMessages_frame [of ?c msgs t w] False by simp
      ultimately show "snd (useMessagePersistence_effect enabled conversationId msgs
                         (fst ?r) (snd ?r)) = snd ?r"
        using active by (simp add: useMessagePersistence_effect_def)
    qed
    from a b c show ?thesis unfolding first by (auto simp: split_beta)
  qed
qed

theorem bridge_seen_not_persisted_again_witness:
  "sm_id ` set ex_snapshot = {''h1'', ''h2'', ''h3''}
   \<and> (case useMessagePersistence_effect True (Some 1) ex_snapshot
              \<lparr>savedMessageIds = {''h1'', ''h2'', ''h3''}, isInitialLoad = False\<rparr> ex_world of
        (t1, w1) \<Rightarrow> w1 = ex_world \<and> savedMessageIds t1 = {''h1'', ''h2'', ''h3''})
   \<and> (case useMessagePersistence_effect True (Some 1) ex_appended ex_tracker_live ex_world of
        (t1, w1) \<Rightarrow>
          persist_results ex_world w1 = [(''n1'', True), (''n2'', True)]
        \<and> snd (useMessagePersistence_effect True (Some 1) ex_appended t1 w1) = w1)"
proof -
  have run: "persist_results ex_world
               (snd (useMessagePersistence_effect True (Some 1) ex_appended ex_tracker_live
                      ex_world))
             = [(''n1'', True), (''n2'', True)]"
    by (simp add: bridge_eval ex_appended_def ex_tracker_live_def ex_world_def ex_response_def)
  show ?thesis
    using run
      bridge_seen_not_persisted_again [where enabled = True and conversationId = "Some 1"
        and msgs = ex_snapshot
        and t = "\<lparr>savedMessageIds = {''h1'', ''h2'', ''h3''}, isInitialLoad = False\<rparr>"
        and w = ex_world]
      bridge_seen_not_persisted_again [where enabled = True and conversationId = "Some 1"
        and msgs = ex_appended and t = ex_tracker_live and w = ex_world]
    by (auto simp: ex_snapshot_def split: prod.splits)
qed

lemma useMessagePersistence_effect_idle:
  "\<not> enabled \<or> \<not> truthy_num conversationId \<or> msgs = [] \<Longrightarrow>
   useMessagePersistence_effect enabled conversationId msgs t w = (t, w)"
  by (auto simp: useMessagePersistence_effect_def)

lemma persist_results_value:
  assumes "distinct (map fst rs)" and "(i, b) \<in> set rs"
  shows "((i, True) \<in> set rs) = b"
  using assms eq_key_imp_eq_value [OF assms(1)] by (cases b) auto

text \<open>
  Claim C5. For a stream with distinct message ids, in every pass of the bridge: an id
  for which a persist call is made is in the seen set after the pass exactly when that
  call succeeded, so a failed persist leaves the id out; the persist calls of a pass
  after the snapshot phase are those of all messages with an unseen id that are not
  system messages, in stream order, whichever of them fail; and the next pass over the
  same stream makes the persist calls of exactly the failed ones again.
\<close>

theorem bridge_failed_persist_retried:
  assumes "distinct (map sm_id msgs)"
  shows "case useMessagePersistence_effect enabled conversationId msgs t w of (t1, w1) \<Rightarrow>
           (\<forall>(i, b) \<in> set (persist_results w w1). (i \<in> savedMessageIds t1) = b)
         \<and> map fst (persist_results w w1)
             = (if enabled \<and> truthy_num conversationId \<and> \<not> isInitialLoad t
                then map sm_id (filter (eligible t) msgs) else [])
         \<and> (case useMessagePersistence_effect enabled conversationId msgs t1 w1 of (t2, w2) \<Rightarrow>
               map fst (persist_results w1 w2)
                 = map fst (filter (\<lambda>(i, b). \<not> b) (persist_results w w1)))"
proof (cases "\<not> enabled \<or> \<not> truthy_num conversationId \<or> msgs = []")
  case True
  then have "useMessagePersistence_effect enabled conversationId msgs t w = (t, w)"
    by (rule useMessagePersistence_effect_idle)
  with True show ?thesis by auto
next
  case active: False
  let ?c = "the conversationId"
  have pass: "\<And>t' w'. \<not> isInitialLoad t' \<Longrightarrow>
      useMessagePersistence_effect enabled conversationId msgs t' w'
        = saveNewMessages ?c msgs t' w'"
    using active by (simp add: useMessagePersistence_effect_def)
  show ?thesis
  proof (cases "isInitialLoad t")
    case True
    let ?t1 = "t\<lparr>savedMessageIds :=
                 fold (\<lambda>msg seen. if sm_id msg \<noteq> [] then insert (sm_id msg) seen else seen)
                   msgs (savedMessageIds t),
               isInitialLoad := False\<rparr>"
    have first: "useMessagePersistence_effect enabled conversationId msgs t w = (?t1, w)"
      using active True by (simp add: useMessagePersistence_effect_def)
    have "\<forall>m \<in> set msgs. sm_id m = [] \<or> sm_id m \<in> savedMessageIds ?t1"
      by (auto simp: snapshot_fold)
    then have "saveNewMessages ?c msgs ?t1 w = (?t1, w)"
      by (rule saveNewMessages_all_seen)
    then have "useMessagePersistence_effect enabled conversationId msgs ?t1 w = (?t1, w)"
      using pass [of ?t1 w] by simp
    with first True show ?thesis by simp
  next
    case False
    let ?r = "saveNewMessages ?c msgs t w"
    let ?rs = "persist_results w (snd ?r)"
    have first: "useMessagePersistence_effect enabled conversationId msgs t w = ?r"
      using False by (rule pass)
    have "\<not> isInitialLoad (fst ?r)"
      using saveNewMessages_frame [of ?c msgs t w] False by simp
    then have second: "useMessagePersistence_effect enabled conversationId msgs (fst ?r) (snd ?r)
                       = saveNewMessages ?c msgs (fst ?r) (snd ?r)"
      by (rule pass)
    have ids: "map fst ?rs = map sm_id (filter (eligible t) msgs)"
      using saveNewMessages_attempts [OF assms] by blast
    from assms have "distinct (map sm_id (filter (eligible t) msgs))"
      by (rule distinct_map_filter)
    with ids have dist: "distinct (map fst ?rs)" by simp
    have a: "\<forall>(i, b) \<in> set ?rs. (i \<in> savedMessageIds (fst ?r)) = b"
    proof (clarify)
      fix i b assume mem: "(i, b) \<in> set ?rs"
      then have "i \<in> set (map fst ?rs)" by force
      with ids obtain m where m: "m \<in> set msgs" "eligible t m" "sm_id m = i" by auto
      from saveNewMessages_seen_iff_saved [OF assms m(1,2), of ?c w] m(3)
      have "(i \<in> savedMessageIds (fst ?r)) = ((i, True) \<in> set ?rs)" by simp
      also have "\<dots> = b" using dist mem by (rule persist_results_value)
      finally show "(i \<in> savedMessageIds (fst ?r)) = b" .
    qed
    have "map fst (persist_results (snd ?r) (snd (saveNewMessages ?c msgs (fst ?r) (snd ?r))))
            = map sm_id (filter (eligible (fst ?r)) msgs)"
      using saveNewMessages_attempts [OF assms] by blast
    also have "\<dots> = map fst (filter (\<lambda>(i, b). \<not> b) ?rs)"
      using assms by (rule saveNewMessages_retry)
    finally have c: "map fst (persist_results (snd ?r)
                        (snd (saveNewMessages ?c msgs (fst ?r) (snd ?r))))
                       = map fst (filter (\<lambda>(i, b). \<not> b) ?rs)" .
    from a ids c active False second show ?thesis
      unfolding first by (simp add: split_beta)
  qed
qed

theorem bridge_failed_persist_retried_witness:
  "case useMessagePersistence_effect True (Some 1) ex_stream ex_tracker_live ex_world_flaky of
     (t1, w1) \<Rightarrow>
       persist_results ex_world_flaky w1 = [(''m1'', False), (''m3'', True)]
     \<and> ''m1'' \<notin> savedMessageIds t1 \<and> ''m3'' \<in> savedMessageIds t1
     \<and> (case useMessagePersistence_effect True (Some 1) ex_stream t1 w1 of
          (t2, w2) \<Rightarrow> map fst (persist_results w1 w2) = [''m1''])"
proof -
  have h: "distinct (map sm_id ex_stream)"
    by (simp add: ex_stream_def)
  have run: "persist_results ex_world_flaky
               (snd (useMessagePersistence_effect True (Some 1) ex_stream ex_tracker_live
                      ex_world_flaky))
             = [(''m1'', False), (''m3'', True)]"
    by (simp add: bridge_eval ex_stream_def ex_tracker_live_def ex_world_flaky_def ex_world_def
          ex_failure_def ex_response_def)
  show ?thesis
    using run bridge_failed_persist_retried [OF h, where enabled = True
        and conversationId = "Some 1" and t = ex_tracker_live and w = ex_world_flaky]
    by (auto simp: ex_stream_def ex_tracker_live_def eligible_def split: prod.splits)
qed

end
